theory Spec2Isabelle
  imports Main "HOL-Library.AList"
begin

section \<open>Values\<close>

text \<open>
  The payloads of comm actions are decoded JSON-like JavaScript values. Numbers are
  modelled as integers. \<open>JUndefined\<close> is the value of a property that is absent.
\<close>

datatype js =
    JUndefined
  | JNull
  | JBool bool
  | JNum int
  | JStr string
  | JArr "js list"
  | JObj "(string \<times> js) list"

text \<open>
  The values the store holds are Immutable.js values: primitives, \<open>List\<close>s and \<open>Map\<close>s.
  A \<open>Map\<close> is represented by the list of its entries; \<open>map_of\<close> reads it and
  \<open>AList.update\<close> is its \<open>set\<close>. Keys of a \<open>Map\<close> are JavaScript values: the
  property names of a converted object are strings, the keys written through a key path
  are the path's elements as they come. Keys are compared structurally, as
  \<open>Immutable.is\<close> compares strings, numbers and the other primitive keys (the source
  declares \<open>path: Array<string | number>\<close>; an array or object used as a key would be
  compared by reference). A hole of a \<open>List\<close> is the element \<open>undefined\<close>.
\<close>

datatype imm =
    IUndefined
  | INull
  | IBool bool
  | INum int
  | IStr string
  | IList "imm list"
  | IMap "(js \<times> imm) list"

text \<open>
  \<open>Immutable.fromJS\<close>: arrays become \<open>List\<close>s, plain objects become \<open>Map\<close>s keyed by
  their property names, deeply; every other value is kept.
\<close>

fun fromJS :: "js \<Rightarrow> imm" where
  "fromJS JUndefined = IUndefined"
| "fromJS JNull = INull"
| "fromJS (JBool b) = IBool b"
| "fromJS (JNum n) = INum n"
| "fromJS (JStr s) = IStr s"
| "fromJS (JArr xs) = IList (map fromJS xs)"
| "fromJS (JObj kvs) = IMap (map (\<lambda>kv. (JStr (fst kv), fromJS (snd kv))) kvs)"

datatype error =
    NullPropertyAccess  \<comment> \<open>TypeError: a property of \<open>null\<close> or \<open>undefined\<close> is read\<close>
  | InvalidKeyPath      \<comment> \<open>\<open>setIn\<close> meets a value without \<open>.set\<close> before the path ends\<close>

text \<open>
  Property access \<open>data.p\<close>, as it is used for \<open>data.path\<close> and \<open>data.value\<close>: it throws
  on \<open>null\<close> and \<open>undefined\<close>, reads the property of an object, and is \<open>undefined\<close> on
  the other values, whose prototypes define neither name.
\<close>

fun js_prop :: "js \<Rightarrow> string \<Rightarrow> error + js" where
  "js_prop JUndefined p = Inl NullPropertyAccess"
| "js_prop JNull p = Inl NullPropertyAccess"
| "js_prop (JObj kvs) p = Inr (case map_of kvs p of None \<Rightarrow> JUndefined | Some v \<Rightarrow> v)"
| "js_prop d p = Inr JUndefined"

text \<open>\<open>[...].concat(path)\<close> appends the elements of an array and any other value as one element.\<close>

fun concat_arg :: "js \<Rightarrow> js list" where
  "concat_arg (JArr ks) = ks"
| "concat_arg p = [p]"

section \<open>Immutable.js: List indices\<close>

definition digit_val :: "char \<Rightarrow> int option" where
  "digit_val c = (let n = (of_char c :: int) in if 48 \<le> n \<and> n \<le> 57 then Some (n - 48) else None)"

fun decimal :: "string \<Rightarrow> int \<Rightarrow> int option" where
  "decimal [] acc = Some acc"
| "decimal (c # cs) acc =
     (case digit_val c of None \<Rightarrow> None | Some d \<Rightarrow> decimal cs (10 * acc + d))"

text \<open>
  A string is an array index when it is the canonical decimal form of an unsigned 32-bit
  integer other than \<open>2^32 - 1\<close> (the test \<open>'' + (index >>> 0) !== index\<close> of \<open>wrapIndex\<close>).
\<close>

definition array_index :: "string \<Rightarrow> int option" where
  "array_index s =
     (if s = [] \<or> (hd s = CHR ''0'' \<and> s \<noteq> ''0'') then None
      else case decimal s 0 of
             None \<Rightarrow> None
           | Some n \<Rightarrow> if n < 4294967295 then Some n else None)"

text \<open>
  \<open>wrapIndex(list, index)\<close>; \<open>None\<close> is \<open>NaN\<close>. A negative number counts from the end.
\<close>

fun wrapIndex :: "nat \<Rightarrow> js \<Rightarrow> int option" where
  "wrapIndex n (JNum i) = Some (if i < 0 then int n + i else i)"
| "wrapIndex n (JStr s) = array_index s"
| "wrapIndex n k = None"

text \<open>\<open>List.get(index, NOT_SET)\<close>; \<open>None\<close> is \<open>NOT_SET\<close>.\<close>

definition list_get :: "imm list \<Rightarrow> js \<Rightarrow> imm option" where
  "list_get xs k =
     (case wrapIndex (length xs) k of
        None \<Rightarrow> None
      | Some i \<Rightarrow> if 0 \<le> i \<and> i < int (length xs) then Some (xs ! nat i) else None)"

text \<open>
  \<open>List.set(index, value)\<close>: a \<open>NaN\<close> index leaves the list as it is, an index past the
  end grows the list with holes (read as \<open>undefined\<close>), and an index before the start
  grows it at the front. Sizes and indices are unbounded integers here; Immutable.js
  computes the bounds of a \<open>List\<close> in 32 bits, so the growing cases stand for indices
  within that range.
\<close>

definition list_set :: "imm list \<Rightarrow> js \<Rightarrow> imm \<Rightarrow> imm list" where
  "list_set xs k v =
     (case wrapIndex (length xs) k of
        None \<Rightarrow> xs
      | Some i \<Rightarrow>
          if i < 0 then v # replicate (nat (- i) - 1) IUndefined @ xs
          else if int (length xs) \<le> i then xs @ replicate (nat i - length xs) IUndefined @ [v]
          else xs[nat i := v])"

section \<open>Immutable.js: setIn\<close>

text \<open>
  \<open>updateInDeepMap(existing, keyPath, i, NOT_SET, () => v)\<close>, the recursion behind
  \<open>setIn(keyPath, v)\<close>. \<open>None\<close> is \<open>NOT_SET\<close>. Below an absent entry a new \<open>Map\<close> is made
  for every remaining key; a \<open>Map\<close> or a \<open>List\<close> is read with \<open>get\<close> and written with
  \<open>set\<close>; any other value met before the path ends throws. (The source returns
  \<open>existing\<close> itself when the updated child is the old child; as a value that is what
  \<open>set\<close> returns too.)
\<close>

fun updateInDeepMap :: "imm option \<Rightarrow> js list \<Rightarrow> imm \<Rightarrow> error + imm" where
  "updateInDeepMap existing [] v = Inr v"
| "updateInDeepMap None (k # ks) v =
     (case updateInDeepMap None ks v of
        Inl e \<Rightarrow> Inl e
      | Inr u \<Rightarrow> Inr (IMap (AList.update k u [])))"
| "updateInDeepMap (Some (IMap kvs)) (k # ks) v =
     (case updateInDeepMap (map_of kvs k) ks v of
        Inl e \<Rightarrow> Inl e
      | Inr u \<Rightarrow> Inr (IMap (AList.update k u kvs)))"
| "updateInDeepMap (Some (IList xs)) (k # ks) v =
     (case updateInDeepMap (list_get xs k) ks v of
        Inl e \<Rightarrow> Inl e
      | Inr u \<Rightarrow> Inr (IList (list_set xs k u)))"
| "updateInDeepMap (Some x) (k # ks) v = Inl InvalidKeyPath"

section \<open>The comms reducer\<close>

text \<open>
  The state is an Immutable \<open>Map\<close> with the three keys \<open>targets\<close>, \<open>models\<close> and
  \<open>info\<close>, each holding a \<open>Map\<close> keyed by strings: target names, and comm ids. An
  entry of \<open>info\<close> is the \<open>Map\<close> made from \<open>{target_module, target_name}\<close>. A
  handler is opaque to the reducer.
\<close>

record comm_info =
  target_module :: string
  target_name :: string

record 'h comm_state =
  targets :: "string \<rightharpoonup> 'h"
  models :: "string \<rightharpoonup> imm"
  info :: "string \<rightharpoonup> comm_info"

definition defaultCommState :: "'h comm_state" where
  "defaultCommState = \<lparr>targets = Map.empty, models = Map.empty, info = Map.empty\<rparr>"

text \<open>
  An action is one of the three the reducer knows, or any other action of the
  application (Redux hands every action to every reducer), of which only the \<open>type\<close> tag
  is kept.
\<close>

datatype 'h action =
    RegisterCommTarget (name: string) (handler: 'h)
  | CommOpen (open_target_name: string) (open_target_module: string) (open_data: js)
      (open_comm_id: string)
  | CommMessage (msg_data: js) (msg_comm_id: string)
  | OtherAction string

text \<open>\<open>state.setIn(["targets", action.name], action.handler)\<close>\<close>

definition registerCommTarget :: "'h comm_state \<Rightarrow> string \<Rightarrow> 'h \<Rightarrow> 'h comm_state" where
  "registerCommTarget state nm h = state\<lparr>targets := (targets state)(nm \<mapsto> h)\<rparr>"

text \<open>
  \<open>state.setIn(["info", comm_id], fromJS(commInfo)).setIn(["models", comm_id], fromJS(data))\<close>
\<close>

definition processCommOpen ::
  "'h comm_state \<Rightarrow> string \<Rightarrow> string \<Rightarrow> js \<Rightarrow> string \<Rightarrow> 'h comm_state" where
  "processCommOpen state tname tmodule data comm_id =
     (let commInfo = \<lparr>target_module = tmodule, target_name = tname\<rparr>
      in state\<lparr>info := (info state)(comm_id \<mapsto> commInfo)\<rparr>
           \<lparr>models := (models state)(comm_id \<mapsto> fromJS data)\<rparr>)"

text \<open>
  \<open>state.setIn(["models", comm_id].concat(path), value)\<close>: the first two keys select
  the entry of the comm in the \<open>models\<close> map, the rest of the path is written below it.
\<close>

definition setIn_models ::
  "'h comm_state \<Rightarrow> string \<Rightarrow> js list \<Rightarrow> imm \<Rightarrow> error + 'h comm_state" where
  "setIn_models state comm_id path v =
     (case updateInDeepMap (models state comm_id) path v of
        Inl e \<Rightarrow> Inl e
      | Inr u \<Rightarrow> Inr (state\<lparr>models := (models state)(comm_id \<mapsto> u)\<rparr>))"

text \<open>
  The info record of the comm decides: under the \<open>reducers\<close>/\<open>setIn\<close> convention
  \<open>data.path\<close> and \<open>data.value\<close> are read and the value is set into the path of the
  model; otherwise, and when there is no info record, the model is replaced by the copy
  of \<open>data\<close>.
\<close>

definition processCommMessage :: "'h comm_state \<Rightarrow> js \<Rightarrow> string \<Rightarrow> error + 'h comm_state" where
  "processCommMessage state data comm_id =
     (case info state comm_id of
        Some commInfo \<Rightarrow>
          if target_module commInfo = ''reducers'' \<and> target_name commInfo = ''setIn'' then
            (case js_prop data ''path'' of
               Inl e \<Rightarrow> Inl e
             | Inr path \<Rightarrow>
                 (case js_prop data ''value'' of
                    Inl e \<Rightarrow> Inl e
                  | Inr val \<Rightarrow> setIn_models state comm_id (concat_arg path) (fromJS val)))
          else Inr (state\<lparr>models := (models state)(comm_id \<mapsto> fromJS data)\<rparr>)
      | None \<Rightarrow> Inr (state\<lparr>models := (models state)(comm_id \<mapsto> fromJS data)\<rparr>))"

text \<open>The reducer: a switch on the type of the action, with the state returned by default.\<close>

fun comms :: "'h comm_state \<Rightarrow> 'h action \<Rightarrow> error + 'h comm_state" where
  "comms state (RegisterCommTarget nm h) = Inr (registerCommTarget state nm h)"
| "comms state (CommOpen tname tmodule data comm_id) =
     Inr (processCommOpen state tname tmodule data comm_id)"
| "comms state (CommMessage data comm_id) = processCommMessage state data comm_id"
| "comms state (OtherAction t) = Inr state"

text \<open>
  Events are dispatched one at a time. An event on which the reducer throws leaves the
  store in the state it had.
\<close>

fun dispatch_all :: "'h comm_state \<Rightarrow> 'h action list \<Rightarrow> 'h comm_state" where
  "dispatch_all state [] = state"
| "dispatch_all state (a # as) =
     (case comms state a of Inl e \<Rightarrow> dispatch_all state as | Inr state' \<Rightarrow> dispatch_all state' as)"

section \<open>Reading and describing locations of a model\<close>

text \<open>
  \<open>getIn(keyPath, NOT_SET)\<close> of Immutable.js on a stored value: each key is read with
  \<open>get\<close> of the \<open>Map\<close> or \<open>List\<close> reached so far; a missing entry, or a value that
  is no collection before the path ends, gives \<open>NOT_SET\<close> (\<open>None\<close>).
\<close>

fun getIn :: "imm \<Rightarrow> js list \<Rightarrow> imm option" where
  "getIn x [] = Some x"
| "getIn (IMap kvs) (k # ks) = (case map_of kvs k of None \<Rightarrow> None | Some c \<Rightarrow> getIn c ks)"
| "getIn (IList xs) (k # ks) = (case list_get xs k of None \<Rightarrow> None | Some c \<Rightarrow> getIn c ks)"
| "getIn x (k # ks) = None"

text \<open>The same below an entry of the \<open>models\<close> map that may be absent.\<close>

fun getIn_entry :: "imm option \<Rightarrow> js list \<Rightarrow> imm option" where
  "getIn_entry None p = None"
| "getIn_entry (Some x) p = getIn x p"

text \<open>
  A path is \<open>writable\<close> in a model when every value it passes through before its end is
  absent, a \<open>Map\<close>, or a \<open>List\<close> addressed at one of its positions.
\<close>

fun writable :: "imm option \<Rightarrow> js list \<Rightarrow> bool" where
  "writable existing [] = True"
| "writable None (k # ks) = True"
| "writable (Some (IMap kvs)) (k # ks) = writable (map_of kvs k) ks"
| "writable (Some (IList xs)) (k # ks) =
     (case list_get xs k of None \<Rightarrow> False | Some c \<Rightarrow> writable (Some c) ks)"
| "writable (Some x) (k # ks) = False"

text \<open>
  A location \<open>q\<close> is \<open>apart\<close> from the path \<open>p\<close> when the two leave each other at some
  container: they agree up to it and then name different keys of a \<open>Map\<close>, or different
  positions of a \<open>List\<close>. Neither is then above or below the other.
\<close>

fun apart :: "imm option \<Rightarrow> js list \<Rightarrow> js list \<Rightarrow> bool" where
  "apart existing [] q = False"
| "apart existing (k # ks) [] = False"
| "apart (Some (IMap kvs)) (k # ks) (k' # qs) =
     (if k = k' then apart (map_of kvs k) ks qs else True)"
| "apart (Some (IList xs)) (k # ks) (k' # qs) =
     (if wrapIndex (length xs) k = wrapIndex (length xs) k' then apart (list_get xs k) ks qs
      else True)"
| "apart existing (k # ks) (k' # qs) = (if k = k' then apart None ks qs else True)"

text \<open>The nested structure that holds \<open>v\<close> at a path and nothing else: one \<open>Map\<close> with one entry per key.\<close>

fun nest_path :: "js list \<Rightarrow> imm \<Rightarrow> imm" where
  "nest_path [] v = v"
| "nest_path (k # ks) v = IMap [(k, nest_path ks v)]"

section \<open>Example states\<close>

text \<open>A store in which the comm \<open>c1\<close> was opened under the \<open>reducers\<close>/\<open>setIn\<close> convention.\<close>

definition opened_setIn :: "js \<Rightarrow> unit comm_state" where
  "opened_setIn d = processCommOpen defaultCommState ''setIn'' ''reducers'' d ''c1''"

text \<open>A store that has the info record of such a comm, and no model for it.\<close>

definition info_only :: "unit comm_state" where
  "info_only = defaultCommState
     \<lparr>info := [''c1'' \<mapsto> \<lparr>target_module = ''reducers'', target_name = ''setIn''\<rparr>]\<rparr>"

text \<open>The payload \<open>{path: ks, value: v}\<close> of a path update.\<close>

definition patch :: "js list \<Rightarrow> js \<Rightarrow> js" where
  "patch ks v = JObj [(''path'', JArr ks), (''value'', v)]"

section \<open>Facts about the Immutable.js operations\<close>

lemma writable_absent [simp]: "writable None ks"
  by (cases ks) simp_all

lemma updateInDeepMap_absent: "updateInDeepMap None ks v = Inr (nest_path ks v)"
  by (induction ks) simp_all

lemma getIn_nest_path: "getIn (nest_path ks v) ks = Some v"
  by (induction ks) simp_all

lemma list_get_in_range:
  "list_get xs k = Some c \<Longrightarrow>
     \<exists>i. wrapIndex (length xs) k = Some (int i) \<and> i < length xs \<and> c = xs ! i"
  by (auto simp: list_get_def split: option.splits if_splits intro!: exI [of _ "nat _"])

lemma list_set_in_range:
  "wrapIndex (length xs) k = Some (int i) \<Longrightarrow> i < length xs \<Longrightarrow> list_set xs k u = xs[i := u]"
  by (simp add: list_set_def)

lemma list_get_update_same:
  "wrapIndex (length xs) k = Some (int i) \<Longrightarrow> i < length xs \<Longrightarrow>
     list_get (xs[i := u]) k = Some u"
  by (simp add: list_get_def)

lemma list_get_update_other:
  "wrapIndex (length xs) k = Some (int i) \<Longrightarrow> i < length xs \<Longrightarrow>
     wrapIndex (length xs) k' \<noteq> Some (int i) \<Longrightarrow> list_get (xs[i := u]) k' = list_get xs k'"
  by (auto simp: list_get_def split: option.splits)

text \<open>A write along a writable path does not throw.\<close>

lemma updateInDeepMap_writable:
  "writable existing p \<Longrightarrow> \<exists>u. updateInDeepMap existing p v = Inr u"
  by (induction existing p v rule: updateInDeepMap.induct)
     (auto split: option.splits sum.splits)

text \<open>After it, the path holds the value.\<close>

lemma updateInDeepMap_writes:
  "writable existing p \<Longrightarrow> updateInDeepMap existing p v = Inr u \<Longrightarrow> getIn u p = Some v"
proof (induction existing p v arbitrary: u rule: updateInDeepMap.induct)
  case (4 xs k ks v)
  from "4.prems" obtain c where c: "list_get xs k = Some c" and w: "writable (Some c) ks"
    by (auto split: option.splits)
  from c obtain i where i: "wrapIndex (length xs) k = Some (int i)" "i < length xs"
    using list_get_in_range by blast
  from "4.prems" c obtain u' where u': "updateInDeepMap (Some c) ks v = Inr u'"
    and u: "u = IList (list_set xs k u')"
    by (auto split: sum.splits)
  from "4.IH" [of u'] c w u' have "getIn u' ks = Some v" by simp
  with i u show ?case
    by (simp add: list_set_in_range list_get_update_same)
qed (auto split: sum.splits simp: update_conv')

text \<open>Every location apart from the path reads as before.\<close>

lemma updateInDeepMap_frame:
  "writable existing p \<Longrightarrow> updateInDeepMap existing p v = Inr u \<Longrightarrow> apart existing p q \<Longrightarrow>
     getIn u q = getIn_entry existing q"
proof (induction existing p v arbitrary: u q rule: updateInDeepMap.induct)
  case (1 existing v)
  then show ?case by simp
next
  case (2 k ks v)
  from "2.prems" obtain k' qs where q: "q = k' # qs" by (cases q) auto
  from "2.prems" obtain u' where u': "updateInDeepMap None ks v = Inr u'"
    and u: "u = IMap [(k, u')]"
    by (auto split: sum.splits)
  show ?case
  proof (cases "k = k'")
    case True
    with "2.prems" q have "apart None ks qs" by simp
    with "2.IH" [of u' qs] u' have "getIn u' qs = None" by simp
    with True q u show ?thesis by simp
  next
    case False
    with q u show ?thesis by simp
  qed
next
  case (3 kvs k ks v)
  from "3.prems" obtain k' qs where q: "q = k' # qs" by (cases q) auto
  from "3.prems" obtain u' where u': "updateInDeepMap (map_of kvs k) ks v = Inr u'"
    and u: "u = IMap (AList.update k u' kvs)"
    by (auto split: sum.splits)
  show ?case
  proof (cases "k = k'")
    case True
    with "3.prems" q have a: "apart (map_of kvs k) ks qs" and w: "writable (map_of kvs k) ks"
      by simp_all
    from "3.IH" [OF w u' a] have "getIn u' qs = getIn_entry (map_of kvs k) qs" .
    with True q u show ?thesis
      by (cases "map_of kvs k") (simp_all add: update_conv')
  next
    case False
    with q u show ?thesis by (simp add: update_conv')
  qed
next
  case (4 xs k ks v)
  from "4.prems" obtain k' qs where q: "q = k' # qs" by (cases q) auto
  from "4.prems" obtain c where c: "list_get xs k = Some c" and w: "writable (Some c) ks"
    by (auto split: option.splits)
  from c obtain i where i: "wrapIndex (length xs) k = Some (int i)" "i < length xs"
    and ci: "c = xs ! i"
    using list_get_in_range by blast
  from "4.prems" c obtain u' where u': "updateInDeepMap (Some c) ks v = Inr u'"
    and u: "u = IList (xs[i := u'])"
    using i by (auto split: sum.splits simp: list_set_in_range)
  show ?case
  proof (cases "wrapIndex (length xs) k' = Some (int i)")
    case True
    with "4.prems" q i c have a: "apart (Some c) ks qs" by simp
    from "4.IH" [of u' qs] c w u' a have "getIn u' qs = getIn c qs" by simp
    moreover from True i have "list_get (xs[i := u']) k' = Some u'"
      by (simp add: list_get_update_same)
    moreover from True i ci have "list_get xs k' = Some c"
      by (simp add: list_get_def)
    ultimately show ?thesis using q u by simp
  qed (use i q u in \<open>simp add: list_get_update_other\<close>)
qed simp_all

text \<open>\<open>fromJS\<close> loses nothing: different payloads have different copies.\<close>

lemma map_eq_injective:
  "(\<And>x y. x \<in> set xs \<Longrightarrow> f x = f y \<Longrightarrow> x = y) \<Longrightarrow> map f xs = map f ys \<Longrightarrow> xs = ys"
proof (induction xs arbitrary: ys)
  case Nil
  then show ?case by simp
next
  case (Cons x xs)
  then obtain y ys' where ys: "ys = y # ys'" by (cases ys) auto
  with Cons.prems have "f x = f y" and "map f xs = map f ys'" by simp_all
  with Cons.prems(1) [of x y] Cons.IH [of ys'] Cons.prems(1) ys show ?case by simp
qed

lemma fromJS_injective: "fromJS a = fromJS b \<Longrightarrow> a = b"
proof (induction a arbitrary: b)
  case JUndefined
  then show ?case by (cases b) simp_all
next
  case JNull
  then show ?case by (cases b) simp_all
next
  case (JBool x)
  then show ?case by (cases b) simp_all
next
  case (JNum x)
  then show ?case by (cases b) simp_all
next
  case (JStr x)
  then show ?case by (cases b) simp_all
next
  case (JArr xs)
  then obtain ys where b: "b = JArr ys" by (cases b) simp_all
  with JArr.prems have "map fromJS xs = map fromJS ys" by simp
  moreover have "\<And>x y. x \<in> set xs \<Longrightarrow> fromJS x = fromJS y \<Longrightarrow> x = y"
    using JArr.IH by blast
  ultimately have "xs = ys" by (rule map_eq_injective [rotated])
  with b show ?case by simp
next
  case (JObj kvs)
  then obtain kvs' where b: "b = JObj kvs'" by (cases b) simp_all
  let ?f = "\<lambda>kv. (JStr (fst kv), fromJS (snd kv))"
  from b JObj.prems have m: "map ?f kvs = map ?f kvs'" by simp
  have "kvs = kvs'"
  proof (rule map_eq_injective [OF _ m])
    fix x y :: "string \<times> js"
    assume x: "x \<in> set kvs" and e: "?f x = ?f y"
    then have "fromJS (snd x) = fromJS (snd y)" and "fst x = fst y" by simp_all
    moreover have "snd x \<in> Basic_BNFs.snds x" by (cases x) simp
    ultimately show "x = y" using JObj.IH [OF x] by (simp add: prod_eq_iff)
  qed
  with b show ?case by simp
qed

lemma size_property_value: "map_of kvs p = Some v \<Longrightarrow> size v < size (JObj kvs)"
  by (induction kvs) (auto split: if_splits)

lemma property_value_differs:
  assumes "map_of kvs p = Some v"
  shows "v \<noteq> JObj kvs"
proof
  assume "v = JObj kvs"
  with size_property_value [OF assms] show False by simp
qed

section \<open>Facts about single transitions\<close>

lemma comms_dom_mono:
  "comms state a = Inr state' \<Longrightarrow>
     dom (targets state) \<subseteq> dom (targets state') \<and>
     dom (info state) \<subseteq> dom (info state') \<and>
     dom (models state) \<subseteq> dom (models state')"
  by (cases a)
     (auto simp: registerCommTarget_def processCommOpen_def processCommMessage_def
        setIn_models_def split: option.splits if_splits sum.splits)

lemma comms_paired:
  "comms state a = Inr state' \<Longrightarrow> dom (info state) \<subseteq> dom (models state) \<Longrightarrow>
     dom (info state') \<subseteq> dom (models state')"
  by (cases a)
     (auto simp: registerCommTarget_def processCommOpen_def processCommMessage_def
        setIn_models_def subset_iff domIff split: option.splits if_splits sum.splits)

lemma dispatch_all_paired:
  "dom (info state) \<subseteq> dom (models state) \<Longrightarrow>
     dom (info (dispatch_all state as)) \<subseteq> dom (models (dispatch_all state as))"
proof (induction as arbitrary: state)
  case Nil
  then show ?case by simp
next
  case (Cons a as)
  show ?case
  proof (cases "comms state a")
    case (Inl e)
    with Cons show ?thesis by simp
  next
    case (Inr state')
    from Inr Cons.prems have "dom (info state') \<subseteq> dom (models state')"
      by (rule comms_paired)
    with Cons.IH Inr show ?thesis by simp
  qed
qed

lemma dispatch_all_dom_mono:
  "dom (targets state) \<subseteq> dom (targets (dispatch_all state as)) \<and>
   dom (info state) \<subseteq> dom (info (dispatch_all state as)) \<and>
   dom (models state) \<subseteq> dom (models (dispatch_all state as))"
proof (induction as arbitrary: state)
  case Nil
  then show ?case by simp
next
  case (Cons a as)
  show ?case
  proof (cases "comms state a")
    case (Inl e)
    with Cons show ?thesis by simp
  next
    case (Inr state')
    from comms_dom_mono [OF Inr] Cons.IH [of state'] Inr show ?thesis
      by (simp del: comms.simps) blast
  qed
qed

section \<open>Claims\<close>



text \<open>
  C2, as the code has it. Under the \<open>reducers\<close>/\<open>setIn\<close> convention, a message carrying a
  path and a value, whose path is writable in the comm's model (it passes only through
  absent entries, \<open>Map\<close>s, and \<open>List\<close>s at positions they have), yields a state in which
  the model holds the value at the path, every location apart from the path reads as
  before, and the model of every other comm is the same.
\<close>

theorem setIn_message_path_write:
  assumes "info state comm_id = Some ci"
    and "target_module ci = ''reducers''" and "target_name ci = ''setIn''"
    and "js_prop data ''path'' = Inr (JArr ks)" and "js_prop data ''value'' = Inr val"
    and "writable (models state comm_id) ks"
  shows "\<exists>state' u. processCommMessage state data comm_id = Inr state'
           \<and> models state' comm_id = Some u
           \<and> getIn u ks = Some (fromJS val)
           \<and> (\<forall>q. apart (models state comm_id) ks q \<longrightarrow>
                 getIn u q = getIn_entry (models state comm_id) q)
           \<and> (\<forall>c. c \<noteq> comm_id \<longrightarrow> models state' c = models state c)"
proof -
  from assms(6) obtain u
    where u: "updateInDeepMap (models state comm_id) ks (fromJS val) = Inr u"
    using updateInDeepMap_writable by blast
  let ?s = "state\<lparr>models := (models state)(comm_id \<mapsto> u)\<rparr>"
  from assms u have "processCommMessage state data comm_id = Inr ?s"
    by (simp add: processCommMessage_def setIn_models_def)
  moreover have "models ?s comm_id = Some u" by simp
  moreover from assms(6) u have "getIn u ks = Some (fromJS val)"
    by (rule updateInDeepMap_writes)
  moreover have "\<forall>q. apart (models state comm_id) ks q \<longrightarrow>
      getIn u q = getIn_entry (models state comm_id) q"
    using updateInDeepMap_frame [OF assms(6) u] by blast
  moreover have "\<forall>c. c \<noteq> comm_id \<longrightarrow> models ?s c = models state c" by simp
  ultimately show ?thesis by blast
qed

text \<open>
  The example of the claim: from the model \<open>{a: {b: 1, c: 2}}\<close>, the message with path
  \<open>["a", "b"]\<close> and value \<open>99\<close> gives \<open>{a: {b: 99, c: 2}}\<close>.
\<close>

theorem setIn_message_path_write_witness:
  "info (opened_setIn (JObj [(''a'', JObj [(''b'', JNum 1), (''c'', JNum 2)])])) ''c1''
     = Some \<lparr>target_module = ''reducers'', target_name = ''setIn''\<rparr>
   \<and> writable (models (opened_setIn (JObj [(''a'', JObj [(''b'', JNum 1), (''c'', JNum 2)])])) ''c1'')
       [JStr ''a'', JStr ''b'']
   \<and> (\<exists>state' u.
         processCommMessage (opened_setIn (JObj [(''a'', JObj [(''b'', JNum 1), (''c'', JNum 2)])]))
             (patch [JStr ''a'', JStr ''b''] (JNum 99)) ''c1'' = Inr state'
         \<and> models state' ''c1'' = Some u
         \<and> getIn u [JStr ''a'', JStr ''b''] = Some (INum 99)
         \<and> getIn u [JStr ''a'', JStr ''c''] = Some (INum 2))
   \<and> processCommMessage (opened_setIn (JObj [(''a'', JObj [(''b'', JNum 1), (''c'', JNum 2)])]))
         (patch [JStr ''a'', JStr ''b''] (JNum 99)) ''c1''
       = Inr (opened_setIn (JObj [(''a'', JObj [(''b'', JNum 99), (''c'', JNum 2)])]))"
proof -
  let ?s = "opened_setIn (JObj [(''a'', JObj [(''b'', JNum 1), (''c'', JNum 2)])])"
  let ?d = "patch [JStr ''a'', JStr ''b''] (JNum 99)"
  let ?ci = "\<lparr>target_module = ''reducers'', target_name = ''setIn''\<rparr>"
  have i: "info ?s ''c1'' = Some ?ci"
    by (simp add: opened_setIn_def processCommOpen_def defaultCommState_def)
  have m: "target_module ?ci = ''reducers''" and n: "target_name ?ci = ''setIn''"
    by simp_all
  have p: "js_prop ?d ''path'' = Inr (JArr [JStr ''a'', JStr ''b''])"
    and v: "js_prop ?d ''value'' = Inr (JNum 99)"
    by (simp_all add: patch_def)
  have w: "writable (models ?s ''c1'') [JStr ''a'', JStr ''b'']"
    by (simp add: opened_setIn_def processCommOpen_def defaultCommState_def)
  have a: "apart (models ?s ''c1'') [JStr ''a'', JStr ''b''] [JStr ''a'', JStr ''c'']"
    by (simp add: opened_setIn_def processCommOpen_def defaultCommState_def)
  have g: "getIn_entry (models ?s ''c1'') [JStr ''a'', JStr ''c''] = Some (INum 2)"
    by (simp add: opened_setIn_def processCommOpen_def defaultCommState_def)
  have r: "processCommMessage ?s ?d ''c1''
      = Inr (opened_setIn (JObj [(''a'', JObj [(''b'', JNum 99), (''c'', JNum 2)])]))"
    by (simp add: opened_setIn_def processCommOpen_def defaultCommState_def patch_def
        processCommMessage_def setIn_models_def)
  from setIn_message_path_write [OF i m n p v w] a g
  have "\<exists>state' u. processCommMessage ?s ?d ''c1'' = Inr state'
         \<and> models state' ''c1'' = Some u
         \<and> getIn u [JStr ''a'', JStr ''b''] = Some (INum 99)
         \<and> getIn u [JStr ''a'', JStr ''c''] = Some (INum 2)"
    by fastforce
  with i w r show ?thesis by blast
qed

text \<open>
  C2 as it is written fails where the path passes through a value that is no collection:
  with the model \<open>{a: 1}\<close>, the message with path \<open>["a", "b"]\<close> makes \<open>setIn\<close> throw, and
  nothing is written.
\<close>

theorem path_through_number_counterexample:
  "info (opened_setIn (JObj [(''a'', JNum 1)])) ''c1''
     = Some \<lparr>target_module = ''reducers'', target_name = ''setIn''\<rparr>
   \<and> models (opened_setIn (JObj [(''a'', JNum 1)])) ''c1'' = Some (IMap [(JStr ''a'', INum 1)])
   \<and> processCommMessage (opened_setIn (JObj [(''a'', JNum 1)]))
         (patch [JStr ''a'', JStr ''b''] (JNum 99)) ''c1''
       = Inl InvalidKeyPath"
  by (simp add: opened_setIn_def processCommOpen_def defaultCommState_def patch_def
      processCommMessage_def setIn_models_def)

text \<open>
  C3. After a comm-open event, \<open>info[comm_id]\<close> is the record of the event's
  \<open>target_module\<close> and \<open>target_name\<close> and \<open>models[comm_id]\<close> is the deep copy of the event's
  data; whatever was stored under the same \<open>comm_id\<close> before has no influence on the result.
\<close>

theorem processCommOpen_entries:
  "comms state (CommOpen tname tmodule data comm_id)
     = Inr (processCommOpen state tname tmodule data comm_id)
   \<and> info (processCommOpen state tname tmodule data comm_id) comm_id
       = Some \<lparr>target_module = tmodule, target_name = tname\<rparr>
   \<and> models (processCommOpen state tname tmodule data comm_id) comm_id = Some (fromJS data)
   \<and> processCommOpen
         (state\<lparr>info := (info state)(comm_id := i0), models := (models state)(comm_id := m0)\<rparr>)
         tname tmodule data comm_id
       = processCommOpen state tname tmodule data comm_id"
  by (simp add: processCommOpen_def)

theorem processCommOpen_entries_witness:
  "models (processCommOpen (opened_setIn (JObj [(''count'', JNum 0)])) ''widget'' ''custom''
      (JArr [JNum 1, JNull]) ''c1'') ''c1'' = Some (IList [INum 1, INull])
   \<and> info (processCommOpen (opened_setIn (JObj [(''count'', JNum 0)])) ''widget'' ''custom''
      (JArr [JNum 1, JNull]) ''c1'') ''c1''
     = Some \<lparr>target_module = ''custom'', target_name = ''widget''\<rparr>"
  using processCommOpen_entries
    [of "opened_setIn (JObj [(''count'', JNum 0)])" "''widget''" "''custom''"
      "JArr [JNum 1, JNull]" "''c1''"]
  by simp

text \<open>
  C4. When the info record of the comm follows the \<open>reducers\<close>/\<open>setIn\<close> convention and
  \<open>models\<close> has no entry for the comm, a message carrying a path and a value does not
  throw: the new model is the chain of containers, one per key of the path, that holds
  the value at the path.
\<close>

theorem setIn_message_without_model:
  assumes "info state comm_id = Some ci"
    and "target_module ci = ''reducers''" and "target_name ci = ''setIn''"
    and "models state comm_id = None"
    and "js_prop data ''path'' = Inr (JArr ks)" and "js_prop data ''value'' = Inr val"
  shows "processCommMessage state data comm_id
           = Inr (state\<lparr>models := (models state)(comm_id \<mapsto> nest_path ks (fromJS val))\<rparr>)
         \<and> getIn (nest_path ks (fromJS val)) ks = Some (fromJS val)"
  using assms
  by (simp add: processCommMessage_def setIn_models_def updateInDeepMap_absent getIn_nest_path)

theorem setIn_message_without_model_witness:
  "models info_only ''c1'' = None
   \<and> processCommMessage info_only (patch [JStr ''a'', JNum 0] (JStr ''x'')) ''c1''
       = Inr (info_only\<lparr>models := [''c1'' \<mapsto> IMap [(JStr ''a'', IMap [(JNum 0, IStr ''x'')])]]\<rparr>)"
proof -
  let ?ci = "\<lparr>target_module = ''reducers'', target_name = ''setIn''\<rparr>"
  let ?d = "patch [JStr ''a'', JNum 0] (JStr ''x'')"
  have i: "info info_only ''c1'' = Some ?ci"
    and e: "models info_only ''c1'' = None"
    by (simp_all add: info_only_def defaultCommState_def)
  have m: "target_module ?ci = ''reducers''" and n: "target_name ?ci = ''setIn''"
    by simp_all
  have p: "js_prop ?d ''path'' = Inr (JArr [JStr ''a'', JNum 0])"
    and v: "js_prop ?d ''value'' = Inr (JStr ''x'')"
    by (simp_all add: patch_def)
  from setIn_message_without_model [OF i m n e p v] e show ?thesis
    by (simp add: info_only_def defaultCommState_def)
qed

text \<open>
  C5. In every state reached from the initial state by dispatching any sequence of
  actions, every comm that has an info record has a model; and dispatching never removes
  an info record or a model from a state.
\<close>

theorem info_has_model:
  "dom (info (dispatch_all defaultCommState as)) \<subseteq> dom (models (dispatch_all defaultCommState as))
   \<and> dom (info state) \<subseteq> dom (info (dispatch_all state as))
   \<and> dom (models state) \<subseteq> dom (models (dispatch_all state as))"
  using dispatch_all_paired [of defaultCommState as] dispatch_all_dom_mono [of state as]
  by (simp add: defaultCommState_def)

theorem info_has_model_witness:
  "dom (info (dispatch_all (defaultCommState :: unit comm_state)
          [CommOpen ''setIn'' ''reducers'' (JObj [(''a'', JNum 1)]) ''c1'',
           CommMessage (patch [JStr ''a'', JStr ''b''] (JNum 99)) ''c1'',
           CommMessage (JNum 3) ''c2''])) = {''c1''}
   \<and> dom (models (dispatch_all (defaultCommState :: unit comm_state)
          [CommOpen ''setIn'' ''reducers'' (JObj [(''a'', JNum 1)]) ''c1'',
           CommMessage (patch [JStr ''a'', JStr ''b''] (JNum 99)) ''c1'',
           CommMessage (JNum 3) ''c2''])) = {''c1'', ''c2''}
   \<and> dom (info (dispatch_all (defaultCommState :: unit comm_state)
          [CommOpen ''setIn'' ''reducers'' (JObj [(''a'', JNum 1)]) ''c1'',
           CommMessage (patch [JStr ''a'', JStr ''b''] (JNum 99)) ''c1'',
           CommMessage (JNum 3) ''c2'']))
     \<subseteq> dom (models (dispatch_all (defaultCommState :: unit comm_state)
          [CommOpen ''setIn'' ''reducers'' (JObj [(''a'', JNum 1)]) ''c1'',
           CommMessage (patch [JStr ''a'', JStr ''b''] (JNum 99)) ''c1'',
           CommMessage (JNum 3) ''c2'']))"
  using info_has_model
    [of "[CommOpen ''setIn'' ''reducers'' (JObj [(''a'', JNum 1)]) ''c1'',
          CommMessage (patch [JStr ''a'', JStr ''b''] (JNum 99)) ''c1'',
          CommMessage (JNum 3) ''c2'']" "defaultCommState :: unit comm_state"]
  by (auto simp: defaultCommState_def processCommOpen_def processCommMessage_def
      setIn_models_def patch_def split: if_splits)

text \<open>
  C6, as the code has it. An action that is none of the three the reducer handles gives
  back the state it was given, and no error. Registering a target and opening a comm
  always yield a state; so does a comm message for a comm that is not under the
  \<open>reducers\<close>/\<open>setIn\<close> convention, and a comm message whose data is neither \<open>null\<close> nor
  \<open>undefined\<close> and whose path is writable in the comm's model.
\<close>

theorem comms_yields_state:
  "comms state (OtherAction t) = Inr state
   \<and> (\<exists>state'. comms state (RegisterCommTarget nm h) = Inr state')
   \<and> (\<exists>state'. comms state (CommOpen tname tmodule data comm_id) = Inr state')
   \<and> (\<not> (\<exists>ci. info state comm_id' = Some ci \<and> target_module ci = ''reducers''
              \<and> target_name ci = ''setIn'') \<longrightarrow>
        (\<exists>state'. comms state (CommMessage data' comm_id') = Inr state'))
   \<and> (js_prop data' ''path'' = Inr p \<and> writable (models state comm_id') (concat_arg p) \<longrightarrow>
        (\<exists>state'. comms state (CommMessage data' comm_id') = Inr state'))"
proof (intro conjI impI)
  show "comms state (OtherAction t) = Inr state" by simp
  show "\<exists>state'. comms state (RegisterCommTarget nm h) = Inr state'" by simp
  show "\<exists>state'. comms state (CommOpen tname tmodule data comm_id) = Inr state'" by simp
next
  assume "\<not> (\<exists>ci. info state comm_id' = Some ci \<and> target_module ci = ''reducers''
              \<and> target_name ci = ''setIn'')"
  then show "\<exists>state'. comms state (CommMessage data' comm_id') = Inr state'"
    by (auto simp: processCommMessage_def split: option.splits)
next
  assume a: "js_prop data' ''path'' = Inr p \<and> writable (models state comm_id') (concat_arg p)"
  then obtain val where v: "js_prop data' ''value'' = Inr val"
    by (cases data') auto
  from a obtain u
    where "updateInDeepMap (models state comm_id') (concat_arg p) (fromJS val) = Inr u"
    using updateInDeepMap_writable by blast
  with a v show "\<exists>state'. comms state (CommMessage data' comm_id') = Inr state'"
    by (auto simp: processCommMessage_def setIn_models_def split: option.splits)
qed

theorem comms_yields_state_witness:
  "comms (opened_setIn (JObj [(''count'', JNum 0)])) (OtherAction ''FOCUS_CELL'')
     = Inr (opened_setIn (JObj [(''count'', JNum 0)]))
   \<and> writable (models (opened_setIn (JObj [(''count'', JNum 0)])) ''c1'') [JStr ''count'']
   \<and> (\<exists>state'. comms (opened_setIn (JObj [(''count'', JNum 0)]))
         (CommMessage (patch [JStr ''count''] (JNum 5)) ''c1'') = Inr state')
   \<and> (\<exists>state'. comms (opened_setIn (JObj [(''count'', JNum 0)]))
         (CommMessage JNull ''c2'') = Inr state')"
proof -
  let ?s = "opened_setIn (JObj [(''count'', JNum 0)])"
  have n: "\<not> (\<exists>ci. info ?s ''c2'' = Some ci
      \<and> target_module ci = ''reducers'' \<and> target_name ci = ''setIn'')"
    by (simp add: opened_setIn_def processCommOpen_def defaultCommState_def)
  have p: "js_prop (patch [JStr ''count''] (JNum 5)) ''path'' = Inr (JArr [JStr ''count''])"
    by (simp add: patch_def)
  have w: "writable (models ?s ''c1'') (concat_arg (JArr [JStr ''count'']))"
    by (simp add: opened_setIn_def processCommOpen_def defaultCommState_def)
  note tot = comms_yields_state
  from tot [of ?s "''FOCUS_CELL''"]
  have "comms ?s (OtherAction ''FOCUS_CELL'') = Inr ?s" by blast
  moreover from tot [of ?s _ _ _ _ _ _ _ "''c1''" "patch [JStr ''count''] (JNum 5)"
      "JArr [JStr ''count'']"] p w
  have "\<exists>state'. comms ?s (CommMessage (patch [JStr ''count''] (JNum 5)) ''c1'') = Inr state'"
    by blast
  moreover from tot [of ?s _ _ _ _ _ _ _ "''c2''" JNull] n
  have "\<exists>state'. comms ?s (CommMessage JNull ''c2'') = Inr state'"
    by blast
  moreover from w have "writable (models ?s ''c1'') [JStr ''count'']" by simp
  ultimately show ?thesis by blast
qed

text \<open>
  C6 as it is written fails: the reducer is not total. In the state reached from the
  initial one by opening \<open>c1\<close> under the convention on \<open>{count: 0}\<close>, a comm message
  whose data is \<open>null\<close>, and one whose path passes through the number under \<open>count\<close>,
  throw.
\<close>

theorem comms_throws_counterexample:
  "dispatch_all defaultCommState [CommOpen ''setIn'' ''reducers'' (JObj [(''count'', JNum 0)]) ''c1'']
     = opened_setIn (JObj [(''count'', JNum 0)])
   \<and> comms (opened_setIn (JObj [(''count'', JNum 0)])) (CommMessage JNull ''c1'')
       = Inl NullPropertyAccess
   \<and> comms (opened_setIn (JObj [(''count'', JNum 0)]))
         (CommMessage (patch [JStr ''count'', JStr ''x''] (JNum 1)) ''c1'')
       = Inl InvalidKeyPath"
  by (simp add: opened_setIn_def processCommOpen_def defaultCommState_def patch_def
      processCommMessage_def setIn_models_def)

text \<open>
  C7. Registering a target name with one handler and then with another gives the state
  that registering the second alone gives, with the second handler under the name; and no
  action takes a name out of the registry.
\<close>

theorem register_last_wins:
  "dispatch_all state [RegisterCommTarget t h1, RegisterCommTarget t h2]
     = dispatch_all state [RegisterCommTarget t h2]
   \<and> targets (dispatch_all state [RegisterCommTarget t h1, RegisterCommTarget t h2]) t = Some h2
   \<and> (\<forall>a state'. comms state a = Inr state' \<longrightarrow> dom (targets state) \<subseteq> dom (targets state'))"
  using comms_dom_mono by (simp add: registerCommTarget_def) blast

theorem register_last_wins_witness:
  "targets (dispatch_all (defaultCommState :: nat comm_state)
      [RegisterCommTarget ''t'' 1, RegisterCommTarget ''t'' 2]) ''t'' = Some 2
   \<and> comms (registerCommTarget (defaultCommState :: nat comm_state) ''t'' 1)
        (CommMessage (JNum 0) ''c1'')
      = Inr ((registerCommTarget defaultCommState ''t'' 1)\<lparr>models := [''c1'' \<mapsto> INum 0]\<rparr>)
   \<and> dom (targets (registerCommTarget (defaultCommState :: nat comm_state) ''t'' 1))
      \<subseteq> dom (targets ((registerCommTarget (defaultCommState :: nat comm_state) ''t'' 1)
            \<lparr>models := [''c1'' \<mapsto> INum 0]\<rparr>))"
proof -
  let ?s = "registerCommTarget (defaultCommState :: nat comm_state) ''t'' 1"
  have c: "comms ?s (CommMessage (JNum 0) ''c1'') = Inr (?s\<lparr>models := [''c1'' \<mapsto> INum 0]\<rparr>)"
    by (simp add: processCommMessage_def registerCommTarget_def defaultCommState_def)
  from register_last_wins [of "defaultCommState :: nat comm_state" "''t''" 1 2]
  have "targets (dispatch_all (defaultCommState :: nat comm_state)
      [RegisterCommTarget ''t'' 1, RegisterCommTarget ''t'' 2]) ''t'' = Some 2"
    by blast
  moreover from register_last_wins [of ?s "''t''" 1 2] c
  have "dom (targets ?s) \<subseteq> dom (targets (?s\<lparr>models := [''c1'' \<mapsto> INum 0]\<rparr>))"
    by blast
  ultimately show ?thesis using c by blast
qed

text \<open>
  C8, as the code has it. From the initial state, registering the target \<open>widget\<close>,
  opening the comm \<open>c1\<close> with \<open>target_name\<close> \<open>"widget"\<close> and \<open>target_module\<close>
  \<open>"reducers"\<close> on \<open>{count: 0}\<close>, and sending it the message \<open>{path: ["count"], value: 5}\<close>
  leaves the deep copy of the whole message as the model of \<open>c1\<close>: the \<open>target_name\<close> is
  not \<open>"setIn"\<close>, so the message replaces the model. Opened with \<open>target_name\<close>
  \<open>"setIn"\<close>, the same sequence gives \<open>{count: 5}\<close>.
\<close>

theorem widget_scenario_replaces:
  "models (dispatch_all defaultCommState
      [RegisterCommTarget ''widget'' h,
       CommOpen ''widget'' ''reducers'' (JObj [(''count'', JNum 0)]) ''c1'',
       CommMessage (JObj [(''path'', JArr [JStr ''count'']), (''value'', JNum 5)]) ''c1'']) ''c1''
     = Some (fromJS (JObj [(''path'', JArr [JStr ''count'']), (''value'', JNum 5)]))
   \<and> models (dispatch_all defaultCommState
      [RegisterCommTarget ''widget'' h,
       CommOpen ''setIn'' ''reducers'' (JObj [(''count'', JNum 0)]) ''c1'',
       CommMessage (JObj [(''path'', JArr [JStr ''count'']), (''value'', JNum 5)]) ''c1'']) ''c1''
     = Some (fromJS (JObj [(''count'', JNum 5)]))"
  by (simp add: defaultCommState_def registerCommTarget_def processCommOpen_def
      processCommMessage_def setIn_models_def)

theorem widget_scenario_replaces_witness:
  "models (dispatch_all defaultCommState
      [RegisterCommTarget ''widget'' (),
       CommOpen ''widget'' ''reducers'' (JObj [(''count'', JNum 0)]) ''c1'',
       CommMessage (JObj [(''path'', JArr [JStr ''count'']), (''value'', JNum 5)]) ''c1'']) ''c1''
     = Some (IMap [(JStr ''path'', IList [IStr ''count'']), (JStr ''value'', INum 5)])"
  using widget_scenario_replaces [of "()"] by simp

text \<open>
  C8 as it is written fails: the model of \<open>c1\<close> after the three events is not \<open>{count: 5}\<close>.
\<close>

theorem widget_scenario_counterexample:
  "models (dispatch_all defaultCommState
      [RegisterCommTarget ''widget'' (),
       CommOpen ''widget'' ''reducers'' (JObj [(''count'', JNum 0)]) ''c1'',
       CommMessage (JObj [(''path'', JArr [JStr ''count'']), (''value'', JNum 5)]) ''c1'']) ''c1''
     \<noteq> Some (fromJS (JObj [(''count'', JNum 5)]))"
  by (simp add: defaultCommState_def registerCommTarget_def processCommOpen_def
      processCommMessage_def setIn_models_def)

text \<open>
  C9. Registering a target leaves the info and models maps as they are; opening a comm
  leaves the targets map as it is; a comm message that yields a state leaves the targets
  and info maps as they are.
\<close>

theorem keyspaces_independent:
  "info (registerCommTarget state nm h) = info state
   \<and> models (registerCommTarget state nm h) = models state
   \<and> targets (processCommOpen state tname tmodule data comm_id) = targets state
   \<and> (\<forall>state'. processCommMessage state data' comm_id' = Inr state' \<longrightarrow>
        targets state' = targets state \<and> info state' = info state)"
  by (auto simp: registerCommTarget_def processCommOpen_def processCommMessage_def
        setIn_models_def split: option.splits if_splits sum.splits)

theorem keyspaces_independent_witness:
  "processCommMessage (opened_setIn (JObj [(''count'', JNum 0)]))
       (patch [JStr ''count''] (JNum 5)) ''c1''
     = Inr (opened_setIn (JObj [(''count'', JNum 5)]))
   \<and> info (opened_setIn (JObj [(''count'', JNum 5)])) = info (opened_setIn (JObj [(''count'', JNum 0)]))
   \<and> targets (opened_setIn (JObj [(''count'', JNum 5)])) = targets (opened_setIn (JObj [(''count'', JNum 0)]))"
proof -
  let ?s = "opened_setIn (JObj [(''count'', JNum 0)])"
  have r: "processCommMessage ?s (patch [JStr ''count''] (JNum 5)) ''c1''
      = Inr (opened_setIn (JObj [(''count'', JNum 5)]))"
    by (simp add: opened_setIn_def processCommOpen_def defaultCommState_def patch_def
        processCommMessage_def setIn_models_def)
  with keyspaces_independent [of ?s _ _ _ _ _ _ "patch [JStr ''count''] (JNum 5)" "''c1''"]
  show ?thesis by blast
qed

text \<open>
  C10. Under the \<open>reducers\<close>/\<open>setIn\<close> convention, a message whose path is the empty
  sequence makes the deep copy of \<open>data.value\<close> the model of the comm; that is never the
  deep copy of \<open>data\<close>, which the replacement branch would store.
\<close>

theorem empty_path_stores_value:
  assumes "info state comm_id = Some ci"
    and "target_module ci = ''reducers''" and "target_name ci = ''setIn''"
    and "js_prop data ''path'' = Inr (JArr [])" and "js_prop data ''value'' = Inr val"
  shows "processCommMessage state data comm_id
           = Inr (state\<lparr>models := (models state)(comm_id \<mapsto> fromJS val)\<rparr>)
         \<and> fromJS val \<noteq> fromJS data"
proof -
  from assms(4) obtain kvs where d: "data = JObj kvs" by (cases data) simp_all
  have "val \<noteq> data"
  proof (cases "map_of kvs ''value''")
    case None
    with assms(5) d show ?thesis by auto
  next
    case (Some v)
    with assms(5) d property_value_differs [OF Some] show ?thesis by auto
  qed
  then have "fromJS val \<noteq> fromJS data" using fromJS_injective by blast
  with assms show ?thesis
    by (simp add: processCommMessage_def setIn_models_def)
qed

theorem empty_path_stores_value_witness:
  "processCommMessage (opened_setIn (JObj [(''count'', JNum 0)])) (patch [] (JNum 7)) ''c1''
     = Inr ((opened_setIn (JObj [(''count'', JNum 0)]))\<lparr>models := [''c1'' \<mapsto> INum 7]\<rparr>)
   \<and> INum 7 \<noteq> fromJS (patch [] (JNum 7))"
proof -
  let ?s = "opened_setIn (JObj [(''count'', JNum 0)])"
  let ?ci = "\<lparr>target_module = ''reducers'', target_name = ''setIn''\<rparr>"
  have i: "info ?s ''c1'' = Some ?ci"
    by (simp add: opened_setIn_def processCommOpen_def defaultCommState_def)
  have m: "target_module ?ci = ''reducers''" and n: "target_name ?ci = ''setIn''"
    by simp_all
  have p: "js_prop (patch [] (JNum 7)) ''path'' = Inr (JArr [])"
    and v: "js_prop (patch [] (JNum 7)) ''value'' = Inr (JNum 7)"
    by (simp_all add: patch_def)
  from empty_path_stores_value [OF i m n p v] show ?thesis
    by (simp add: opened_setIn_def processCommOpen_def defaultCommState_def)
qed

end
